theory Spec2Isabelle
  imports Complex_Main "HOL-Library.Sublist"
begin

section \<open>Numbers\<close>

text \<open>
  A Number is an IEEE 754 binary64 value. A finite one is kept as the rational it
  denotes; the sign of zero is not kept.
\<close>

datatype number = Finite rat | PosInfinity | NegInfinity | NaN

text \<open>
  \<open>round_to p N a\<close> rounds \<open>a \<ge> 0\<close> to \<open>p\<close> significant bits, where no bit below \<open>2\<close> to
  the \<open>- N\<close> is kept: \<open>a\<close> is scaled so that this bit is the unit, the scaled value is
  cut to its \<open>p\<close> leading bits, and what is cut off rounds to nearest, a tie going to
  the even neighbour. binary64 has 53 significant bits, its smallest subnormal is \<open>2\<close>
  to the \<open>- 1074\<close>, and a result of magnitude \<open>2 ^ 1024\<close> or more is infinite.
  \<open>round_double\<close> is the Number that a real value denotes: a literal, the result of an
  operation, the value of a numeral read by \<open>parseInt\<close>.
\<close>

fun bit_length :: "nat \<Rightarrow> nat" where
  "bit_length n = (if n = 0 then 0 else Suc (bit_length (n div 2)))"

definition round_half_even :: "rat \<Rightarrow> int" where
  "round_half_even y =
     (let f = \<lfloor>y\<rfloor>; r = y - of_int f in
      if r < 1 / 2 then f else if 1 / 2 < r then f + 1 else if even f then f else f + 1)"

definition round_to :: "nat \<Rightarrow> nat \<Rightarrow> rat \<Rightarrow> rat" where
  "round_to p N a =
     (let y = a * 2 ^ N;
          u = 2 ^ (bit_length (nat \<lfloor>y\<rfloor>) - p)
      in of_int (round_half_even (y / u)) * u / 2 ^ N)"

definition round_double :: "rat \<Rightarrow> number" where
  "round_double x =
     (let r = round_to 53 1074 \<bar>x\<bar>
      in if 2 ^ 1024 \<le> r then (if 0 < x then PosInfinity else NegInfinity)
         else Finite (sgn x * r))"

text \<open>The operator \<open>*\<close> on Numbers: the exact product, rounded, when both are finite;
  otherwise \<open>NaN\<close> if a factor is \<open>NaN\<close> or zero, and else the infinity of the product's
  sign.\<close>

definition sign_of :: "number \<Rightarrow> rat" where
  "sign_of a = (case a of Finite x \<Rightarrow> sgn x | PosInfinity \<Rightarrow> 1 | NegInfinity \<Rightarrow> - 1 | NaN \<Rightarrow> 0)"

definition multiply :: "number \<Rightarrow> number \<Rightarrow> number" where
  "multiply a b =
     (case (a, b) of
        (Finite x, Finite y) \<Rightarrow> round_double (x * y)
      | _ \<Rightarrow>
          if a = NaN \<or> b = NaN \<or> sign_of a * sign_of b = 0 then NaN
          else if 0 < sign_of a * sign_of b then PosInfinity
          else NegInfinity)"

text \<open>The literal \<open>0.8\<close>: the double nearest to eight tenths.\<close>

definition number_0_8 :: number where
  "number_0_8 = round_double (8 / 10)"

section \<open>JavaScript values and strings\<close>

text \<open>
  A JavaScript string is a sequence of code units. The model uses \<^typ>\<open>string\<close>, so it
  covers the strings whose code units are all below 256; every pattern the program
  searches for is ASCII.
\<close>

datatype js_value =
    JUndefined
  | JNull
  | JBool bool
  | JNumber number
  | JStr string

abbreviation JNum :: "rat \<Rightarrow> js_value" where
  "JNum x \<equiv> JNumber (Finite x)"

abbreviation JNaN :: js_value where
  "JNaN \<equiv> JNumber NaN"

text \<open>Errors that the code throws: \<open>new Error(message)\<close>, and the runtime's TypeError
  for a method call on \<open>undefined\<close>.\<close>

datatype js_error =
    Error string
  | TypeError

fun message :: "js_error \<Rightarrow> string" where
  "message (Error m) = m"
| "message TypeError = ''Cannot read properties of undefined''"

text \<open>\<open>exports.DOWN = 0; exports.UP = 1; exports.PENDING = 2; exports.MAINTENANCE = 3\<close>\<close>

definition DOWN :: js_value where "DOWN = JNum 0"
definition UP :: js_value where "UP = JNum 1"
definition PENDING :: js_value where "PENDING = JNum 2"
definition MAINTENANCE :: js_value where "MAINTENANCE = JNum 3"

text \<open>The logger is a collaborator; the model keeps the calls made to it, in order:
  the level, the module name and the message.\<close>

datatype log_level = Debug | Warn

type_synonym log_entry = "log_level \<times> string \<times> string"

section \<open>Built-in string operations\<close>

text \<open>\<open>String.prototype.includes\<close>: the search string occurs at some position.\<close>

fun includes_str :: "string \<Rightarrow> string \<Rightarrow> bool" where
  "includes_str [] searchString = (searchString = [])"
| "includes_str (c # cs) searchString =
     (prefix searchString (c # cs) \<or> includes_str cs searchString)"

text \<open>
  \<open>String.prototype.split\<close> with a string separator and no limit. With a non-empty
  separator the string is cut at each occurrence found from left to right, the search
  resuming after the occurrence; the result always has at least one piece. With the
  empty separator the result is the list of the code units.
\<close>

function split :: "string \<Rightarrow> string \<Rightarrow> string list" where
  "split s [] = map (\<lambda>c. [c]) s"
| "split [] (d # ds) = [[]]"
| "split (c # cs) (d # ds) =
     (if prefix (d # ds) (c # cs)
      then [] # split (drop (length (d # ds)) (c # cs)) (d # ds)
      else (case split cs (d # ds) of
              [] \<Rightarrow> [[c]]
            | piece # pieces \<Rightarrow> (c # piece) # pieces))"
  by pat_completeness auto
termination
  by (relation "measure (\<lambda>(s, separator). length s)") auto

text \<open>Reading \<open>xs[i]\<close>: \<open>None\<close> is \<open>undefined\<close>, the value of an index out of range.\<close>

definition item :: "'a list \<Rightarrow> nat \<Rightarrow> 'a option" where
  "item xs i = (if i < length xs then Some (xs ! i) else None)"

text \<open>\<open>ToString\<close> of a value that is a string or \<open>undefined\<close>.\<close>

definition ToString :: "string option \<Rightarrow> string" where
  "ToString v = (case v of None \<Rightarrow> ''undefined'' | Some s \<Rightarrow> s)"

text \<open>The white space and line terminator code units below 256: TAB, LF, VT, FF, CR,
  SP and NBSP.\<close>

definition isWhiteSpace :: "char \<Rightarrow> bool" where
  "isWhiteSpace c \<longleftrightarrow>
     c \<in> {CHR 0x09, CHR 0x0A, CHR 0x0B, CHR 0x0C, CHR 0x0D, CHR 0x20, CHR 0xA0}"

text \<open>\<open>String.prototype.trim\<close>.\<close>

definition trim :: "string \<Rightarrow> string" where
  "trim s = rev (dropWhile isWhiteSpace (rev (dropWhile isWhiteSpace s)))"

text \<open>
  \<open>parseInt(string)\<close> with no radix, after ECMA-262: leading white space is dropped, a
  sign is read, a prefix \<open>0x\<close> or \<open>0X\<close> selects radix 16 (radix 10 otherwise), and the
  longest run of digits of that radix is the numeral read; the result is \<open>NaN\<close> when
  the run is empty, and else the Number that the numeral with its sign denotes.
\<close>

definition digitValue :: "char \<Rightarrow> nat option" where
  "digitValue c =
     (let n = (of_char c :: nat) in
      if 48 \<le> n \<and> n \<le> 57 then Some (n - 48)
      else if 97 \<le> n \<and> n \<le> 122 then Some (n - 87)
      else if 65 \<le> n \<and> n \<le> 90 then Some (n - 55)
      else None)"

definition isRadixDigit :: "nat \<Rightarrow> char \<Rightarrow> bool" where
  "isRadixDigit R c = (case digitValue c of None \<Rightarrow> False | Some v \<Rightarrow> v < R)"

definition mathInt :: "nat \<Rightarrow> string \<Rightarrow> int" where
  "mathInt R Z =
     foldl (\<lambda>a c. a * int R + int (case digitValue c of None \<Rightarrow> 0 | Some v \<Rightarrow> v)) 0 Z"

definition parseInt :: "string \<Rightarrow> js_value" where
  "parseInt inputString =
     (let S = dropWhile isWhiteSpace inputString;
          sign = (if prefix ''-'' S then - 1 else 1 :: int);
          S = (if prefix ''+'' S \<or> prefix ''-'' S then tl S else S);
          stripPrefix = (prefix ''0x'' S \<or> prefix ''0X'' S);
          R = (if stripPrefix then 16 else 10);
          S = (if stripPrefix then drop 2 S else S);
          Z = takeWhile (isRadixDigit R) S
      in if Z = [] then JNaN else JNumber (round_double (of_int (sign * mathInt R Z))))"

text \<open>Truthiness, as \<open>if (v)\<close> and \<open>||\<close> test it.\<close>

fun truthy :: "js_value \<Rightarrow> bool" where
  "truthy JUndefined = False"
| "truthy JNull = False"
| "truthy (JBool b) = b"
| "truthy (JNumber n) = (n \<noteq> NaN \<and> n \<noteq> Finite 0)"
| "truthy (JStr s) = (s \<noteq> [])"

definition js_or :: "js_value \<Rightarrow> js_value \<Rightarrow> js_value" where
  "js_or a b = (if truthy a then a else b)"

text \<open>A template literal's \<open>"${s}"\<close>: the string between two double quotes.\<close>

definition quoted :: "string \<Rightarrow> string" where
  "quoted s = CHR 0x22 # s @ [CHR 0x22]"

section \<open>The heartbeat model (server/model/heartbeat.js)\<close>

text \<open>The bean's columns. They are dynamically typed in the source, so each field holds
  a \<^typ>\<open>js_value\<close>.\<close>

record heartbeat =
  monitor_id :: js_value
  status :: js_value
  time :: js_value
  msg :: js_value
  ping :: js_value
  important :: js_value
  duration :: js_value

text \<open>An object literal is the list of its properties in the order they are written.\<close>

type_synonym js_object = "(string \<times> js_value) list"

definition toPublicJSON :: "heartbeat \<Rightarrow> js_object" where
  "toPublicJSON this =
     [ (''status'', status this),
       (''time'', time this),
       (''msg'', JStr ''''),
       (''ping'', ping this) ]"

definition toJSON :: "heartbeat \<Rightarrow> js_object" where
  "toJSON this =
     [ (''monitorID'', monitor_id this),
       (''status'', status this),
       (''time'', time this),
       (''msg'', msg this),
       (''ping'', ping this),
       (''important'', important this),
       (''duration'', duration this) ]"

text \<open>A heartbeat used where a concrete one is needed: a pending beat of monitor 7 that
  carries a message.\<close>

definition hb0 :: heartbeat where
  "hb0 = \<lparr> monitor_id = JNum 7, status = PENDING, time = JStr ''2023-10-01 12:00:00.000'',
           msg = JStr ''connect ECONNREFUSED 10.0.0.5:443'', ping = JNull,
           important = JBool False, duration = JNum 60 \<rparr>"

section \<open>The Tailscale ping checker (server/monitor-types/tailscale-ping.js)\<close>

text \<open>
  \<open>runTailscalePing\<close> calls \<open>exec(cmd, { timeout: timeout }, callback)\<close>. The child
  process is a collaborator: \<open>exec\<close> is a parameter that maps the command and the
  options to the arguments the callback receives, the message of \<open>error\<close> or \<open>None\<close> for
  \<open>null\<close>, \<open>stdout\<close> and \<open>stderr\<close>. The promise rejected is \<open>Inl\<close>, resolved is \<open>Inr\<close>.
\<close>

record exec_options =
  timeout :: number

type_synonym exec_result = "string option \<times> string \<times> string"

definition callback :: "exec_result \<Rightarrow> string + string" where
  "callback result =
     (case result of
        (error, stdout, stderr) \<Rightarrow>
          (case error of
             Some error_message \<Rightarrow> Inl (''Execution error: '' @ error_message)
           | None \<Rightarrow>
               if stderr \<noteq> [] then Inl (''Error in output: '' @ stderr) else Inr stdout))"

definition runTailscalePing ::
  "(string \<Rightarrow> exec_options \<Rightarrow> exec_result) \<Rightarrow> string \<Rightarrow> number \<Rightarrow> log_entry list
     \<Rightarrow> (string + string) \<times> log_entry list" where
  "runTailscalePing exec hostname interval logged =
     (let cmd = ''tailscale ping '' @ hostname;
          logged = logged @ [(Debug, ''Tailscale'', cmd)];
          timeout = multiply (multiply interval (Finite 1000)) number_0_8
      in (callback (exec cmd \<lparr>timeout = timeout\<rparr>), logged))"

text \<open>How one pass through the body of the \<open>for\<close> loop ends: it falls through to the
  next line, leaves the loop by \<open>break\<close>, or throws.\<close>

datatype flow = Next | Break | Throw js_error

text \<open>
  The body of the loop of \<open>parseTailscaleOutput\<close> for one line. The heartbeat is
  mutated in place in the source, so the heartbeat reached is returned with the flow,
  also when the body throws: \<open>heartbeat.status = UP\<close> is executed before the round-trip
  time is extracted, and there the method call \<open>split\<close> on \<open>undefined\<close> (the element at
  index 1 of a one-element array) throws a TypeError.
\<close>

definition body :: "string \<Rightarrow> heartbeat \<Rightarrow> flow \<times> heartbeat" where
  "body line heartbeat =
     (if includes_str line ''pong from'' then
        (let heartbeat = heartbeat\<lparr>status := UP\<rparr> in
         case item (split line '' in '') 1 of
           None \<Rightarrow> (Throw TypeError, heartbeat)
         | Some part \<Rightarrow>
             (let time = item (split part '' '') 0;
                  heartbeat = heartbeat\<lparr>ping := parseInt (ToString time)\<rparr>;
                  heartbeat = heartbeat\<lparr>msg := JStr line\<rparr>
              in (Break, heartbeat)))
      else if includes_str line ''timed out'' then
        (Throw (Error (''Ping timed out: '' @ quoted line)), heartbeat)
      else if includes_str line ''no matching peer'' then
        (Throw (Error (''Nonexistant or inaccessible due to ACLs: '' @ quoted line)),
         heartbeat)
      else if includes_str line ''is local Tailscale IP'' then
        (Throw (Error (''Tailscale only works if used on other machines: '' @ quoted line)),
         heartbeat)
      else if line \<noteq> [] then
        (Throw (Error (''Unexpected output: '' @ quoted line)), heartbeat)
      else (Next, heartbeat))"

text \<open>The loop over the lines. The result is the error thrown, if any, and the
  heartbeat as the call leaves it.\<close>

fun loop :: "string list \<Rightarrow> heartbeat \<Rightarrow> js_error option \<times> heartbeat" where
  "loop [] heartbeat = (None, heartbeat)"
| "loop (line # lines) heartbeat =
     (case body line heartbeat of
        (Next, heartbeat') \<Rightarrow> loop lines heartbeat'
      | (Break, heartbeat') \<Rightarrow> (None, heartbeat')
      | (Throw e, heartbeat') \<Rightarrow> (Some e, heartbeat'))"

definition parseTailscaleOutput ::
  "string \<Rightarrow> heartbeat \<Rightarrow> js_error option \<times> heartbeat" where
  "parseTailscaleOutput tailscaleOutput heartbeat =
     (let lines = split tailscaleOutput ''\<newline>'' in loop lines heartbeat)"

section \<open>The server object (UptimeKumaServer)\<close>

subsection \<open>getClientIP\<close>

text \<open>
  What \<open>getClientIP\<close> reads of the socket: \<open>socket.client.conn.remoteAddress\<close>, a
  string or \<open>undefined\<close> (\<open>None\<close>), and \<open>socket.client.conn.request.headers\<close>, where an
  absent header reads as \<open>undefined\<close>.
\<close>

record socket =
  remoteAddress :: "string option"
  headers :: "string \<Rightarrow> js_value"

text \<open>\<open>s.replace(/^::ffff:/, "")\<close>: the prefix is removed once, when it is there.\<close>

definition replace_ffff :: "string \<Rightarrow> string" where
  "replace_ffff s = (if prefix ''::ffff:'' s then drop (length ''::ffff:'') s else s)"

text \<open>
  The value of the setting \<open>trustProxy\<close> (what \<open>Settings.get\<close> resolves to) is a
  parameter. The result is the value returned, or the TypeError of calling \<open>trim\<close> on
  \<open>undefined\<close>.
\<close>

definition getClientIP :: "js_value \<Rightarrow> socket \<Rightarrow> js_error + js_value" where
  "getClientIP trustProxy socket =
     (let clientIP = (case remoteAddress socket of None \<Rightarrow> '''' | Some a \<Rightarrow> a) in
      if truthy trustProxy then
        (let forwardedFor = headers socket ''x-forwarded-for'' in
         case (case forwardedFor of
                 JStr s \<Rightarrow>
                   (case item (split s '','') 0 of
                      None \<Rightarrow> Inl TypeError
                    | Some first \<Rightarrow> Inr (JStr (trim first)))
               | _ \<Rightarrow> Inr JNull) of
           Inl e \<Rightarrow> Inl e
         | Inr fromForwardedFor \<Rightarrow>
             Inr (js_or (js_or fromForwardedFor (headers socket ''x-real-ip''))
                        (JStr (replace_ffff clientIP))))
      else Inr (JStr (replace_ffff clientIP)))"

subsection \<open>getTimezone\<close>

text \<open>
  \<open>checkTimezone\<close> formats a fixed instant in the zone with dayjs and throws
  \<open>Error("Invalid timezone:" + timezone)\<close> when that throws. Whether dayjs formats in a
  zone is the parameter \<open>formats\<close>.
\<close>

definition checkTimezone :: "(string \<Rightarrow> bool) \<Rightarrow> string \<Rightarrow> js_error + unit" where
  "checkTimezone formats timezone =
     (if formats timezone then Inr () else Inl (Error (''Invalid timezone:'' @ timezone)))"

text \<open>A string or \<open>null\<close>/\<open>undefined\<close> (\<open>None\<close>) appended to a string.\<close>

definition shown :: "string \<Rightarrow> string option \<Rightarrow> string" where
  "shown nothing v = (case v of None \<Rightarrow> nothing | Some s \<Rightarrow> s)"

text \<open>
  The three steps of \<open>getTimezone\<close>, in the order of the source; each takes the log so
  far and returns the timezone with the log. The parameters are what the function
  reads from its surroundings: \<open>process.env.TZ\<close> (a string, or \<open>None\<close> when unset), the
  setting \<open>serverTimezone\<close> (a string, or \<open>None\<close> for \<open>null\<close>), and the outcome of
  \<open>dayjs.tz.guess()\<close> (an error thrown, or a string or \<open>undefined\<close>).
\<close>

definition fromGuess ::
  "(string \<Rightarrow> bool) \<Rightarrow> js_error + string option \<Rightarrow> log_entry list \<Rightarrow> string \<times> log_entry list" where
  "fromGuess formats tzGuess logged =
     (let fallback = (Debug, ''timezone'', ''Guessed an invalid timezone. Use UTC as fallback'') in
      case tzGuess of
        Inl e \<Rightarrow> (''UTC'', logged @ [fallback])
      | Inr guess \<Rightarrow>
          (let logged = logged @ [(Debug, ''timezone'', ''Guessing timezone: '' @ shown ''undefined'' guess)] in
           case guess of
             None \<Rightarrow> (''UTC'', logged)
           | Some g \<Rightarrow>
               if g \<noteq> [] then
                 (case checkTimezone formats g of
                    Inr _ \<Rightarrow> (g, logged)
                  | Inl e \<Rightarrow> (''UTC'', logged @ [fallback]))
               else (''UTC'', logged)))"

definition fromSettings ::
  "(string \<Rightarrow> bool) \<Rightarrow> string option \<Rightarrow> js_error + string option \<Rightarrow> log_entry list
     \<Rightarrow> string \<times> log_entry list" where
  "fromSettings formats timezone tzGuess logged =
     (let logged = logged @ [(Debug, ''timezone'',
                        ''Using timezone from settings: '' @ shown ''null'' timezone)] in
      case timezone of
        None \<Rightarrow> fromGuess formats tzGuess logged
      | Some tz \<Rightarrow>
          if tz \<noteq> [] then
            (case checkTimezone formats tz of
               Inr _ \<Rightarrow> (tz, logged)
             | Inl e \<Rightarrow>
                 fromGuess formats tzGuess
                   (logged @ [(Warn, ''timezone'', message e @ '' in settings'')]))
          else fromGuess formats tzGuess logged)"

definition getTimezone ::
  "(string \<Rightarrow> bool) \<Rightarrow> string option \<Rightarrow> string option \<Rightarrow> js_error + string option
     \<Rightarrow> log_entry list \<Rightarrow> string \<times> log_entry list" where
  "getTimezone formats TZ serverTimezone tzGuess logged =
     (case TZ of
        None \<Rightarrow> fromSettings formats serverTimezone tzGuess logged
      | Some tz \<Rightarrow>
          if tz \<noteq> [] then
            (case checkTimezone formats tz of
               Inr _ \<Rightarrow> (tz, logged)
             | Inl e \<Rightarrow>
                 fromSettings formats serverTimezone tzGuess
                   (logged @ [(Warn, ''timezone'', message e @ '' in process.env.TZ'')]))
          else fromSettings formats serverTimezone tzGuess logged)"

section \<open>Decimal notation\<close>

text \<open>The decimal numeral of a natural number, as the ping tool prints a round-trip
  time in front of the unit \<open>ms\<close>. It is used to state what \<open>parseInt\<close> reads.\<close>

definition digit :: "nat \<Rightarrow> char" where
  "digit d = char_of (48 + d)"

fun decimal :: "nat \<Rightarrow> string" where
  "decimal n = (if n < 10 then [digit n] else decimal (n div 10) @ [digit (n mod 10)])"

section \<open>Concrete inputs\<close>

text \<open>Sockets behind a reverse proxy: one with an \<open>x-forwarded-for\<close> header, one with an
  \<open>x-real-ip\<close> header, one with neither.\<close>

definition sock_forwarded :: socket where
  "sock_forwarded =
     \<lparr> remoteAddress = Some ''::ffff:172.17.0.1'',
       headers = (\<lambda>name. if name = ''x-forwarded-for''
                          then JStr ''::ffff:203.0.113.7, 10.0.0.2'' else JUndefined) \<rparr>"

definition sock_real_ip :: socket where
  "sock_real_ip =
     \<lparr> remoteAddress = Some ''::ffff:172.17.0.1'',
       headers = (\<lambda>name. if name = ''x-real-ip''
                          then JStr ''::ffff:203.0.113.7'' else JUndefined) \<rparr>"

definition sock_plain :: socket where
  "sock_plain = \<lparr> remoteAddress = Some ''::ffff:172.17.0.1'', headers = (\<lambda>name. JUndefined) \<rparr>"

text \<open>A socket whose \<open>x-forwarded-for\<close> header starts with a blank entry, and one with no
  remote address and no header.\<close>

definition sock_blank_entry :: socket where
  "sock_blank_entry =
     \<lparr> remoteAddress = Some ''192.168.1.10'',
       headers = (\<lambda>name. if name = ''x-forwarded-for''
                          then JStr '' , 10.0.0.2'' else JUndefined) \<rparr>"

definition sock_no_address :: socket where
  "sock_no_address = \<lparr> remoteAddress = None, headers = (\<lambda>name. JUndefined) \<rparr>"

text \<open>A child process that answers with a pong when it is given a timeout of 8000
  milliseconds, and fails otherwise.\<close>

definition exec_probe :: "string \<Rightarrow> exec_options \<Rightarrow> exec_result" where
  "exec_probe cmd options =
     (if timeout options = Finite 8000
      then (None, ''pong from gateway (100.64.0.2) via DERP(fra) in 23ms'', '''')
      else (Some ''Command failed'', '''', ''''))"

text \<open>A zone check that accepts three zone names.\<close>

definition three_zones :: "string \<Rightarrow> bool" where
  "three_zones tz \<longleftrightarrow> tz \<in> {''UTC'', ''Europe/Berlin'', ''Asia/Hong_Kong''}"

section \<open>Facts about rounding\<close>

declare bit_length.simps [simp del]

lemma bit_length_eqI: "2 ^ k \<le> n \<Longrightarrow> n < 2 ^ Suc k \<Longrightarrow> bit_length n = Suc k"
proof (induction k arbitrary: n)
  case 0
  then have "n = 1" by simp
  then show ?case by (simp add: bit_length.simps)
next
  case (Suc k)
  then have "2 ^ k \<le> n div 2" "n div 2 < 2 ^ Suc k" by auto
  then have "bit_length (n div 2) = Suc k" by (rule Suc.IH)
  moreover from Suc.prems have "n \<noteq> 0" by auto
  ultimately show ?case by (subst bit_length.simps) simp
qed

lemma round_half_even_near:
  assumes "0 \<le> f" and "f < 1 / 2"
  shows "round_half_even (of_int m + f) = m"
proof -
  from assms have "\<lfloor>of_int m + f\<rfloor> = m" by (intro floor_unique) auto
  with assms show ?thesis by (simp add: round_half_even_def)
qed

lemma round_to_mantissa:
  assumes "2 ^ k \<le> m" and "m < 2 ^ Suc k" and "p = Suc k"
    and "0 \<le> f" and "f < 1" and "t \<le> N"
  shows "round_to p N ((of_nat m + f) / 2 ^ t) = of_int (round_half_even (of_nat m + f)) / 2 ^ t"
proof -
  from assms(6) obtain j where N: "N = t + j" using le_Suc_ex by blast
  define y where "y = (of_nat m + f) / 2 ^ t * (2::rat) ^ N"
  have y: "y = (of_nat m + f) * 2 ^ j" by (simp add: y_def N power_add)
  have "rat_of_nat m * 2 ^ j \<le> y" using assms(4) by (simp add: y)
  then have "rat_of_int (int (m * 2 ^ j)) \<le> y" by simp
  then have lo: "int (m * 2 ^ j) \<le> \<lfloor>y\<rfloor>" by (simp only: le_floor_iff)
  have "(rat_of_nat m + f) * 2 ^ j < (rat_of_nat m + 1) * 2 ^ j"
    using assms(5) by (intro mult_strict_right_mono) simp_all
  then have "y < rat_of_int (int (Suc m * 2 ^ j))" by (simp add: y algebra_simps)
  then have hi: "\<lfloor>y\<rfloor> < int (Suc m * 2 ^ j)" by (simp only: floor_less_iff)
  from assms(1) have "2 ^ k * 2 ^ j \<le> m * 2 ^ j" by (rule mult_le_mono1)
  also from lo have "m * 2 ^ j \<le> nat \<lfloor>y\<rfloor>" by linarith
  finally have a: "2 ^ (k + j) \<le> nat \<lfloor>y\<rfloor>" by (simp only: power_add)
  from lo hi have "nat \<lfloor>y\<rfloor> < Suc m * 2 ^ j" by linarith
  also from assms(2) have "Suc m * 2 ^ j \<le> 2 ^ Suc k * 2 ^ j"
    by (intro mult_le_mono1) simp
  finally have b: "nat \<lfloor>y\<rfloor> < 2 ^ Suc (k + j)" by (simp add: power_add)
  have bits: "bit_length (nat \<lfloor>y\<rfloor>) = Suc (k + j)"
    using a b by (rule bit_length_eqI)
  have "round_to p N ((of_nat m + f) / 2 ^ t) =
          of_int (round_half_even (y / 2 ^ j)) * 2 ^ j / 2 ^ N"
    unfolding round_to_def Let_def y_def [symmetric] bits assms(3) by simp
  also have "y / 2 ^ j = of_nat m + f" by (simp add: y)
  also have "of_int (round_half_even (of_nat m + f)) * (2::rat) ^ j / 2 ^ N 
      = of_int (round_half_even (of_nat m + f)) / 2 ^ t"
    by (simp add: N power_add)
  finally show ?thesis .
qed

lemma of_nat_less_two_power: "(v::nat) < 2 ^ n \<Longrightarrow> rat_of_nat v < 2 ^ n"
proof -
  assume "v < 2 ^ n"
  then have "rat_of_nat v < rat_of_nat (2 ^ n)" by (simp only: of_nat_less_iff)
  then show ?thesis by (simp only: of_nat_power of_nat_numeral)
qed

lemma round_double_near_nat:
  fixes v :: nat and d :: rat
  assumes "0 < v" and "v < 2 ^ 53" and "0 \<le> d" and "d * 2 ^ 54 \<le> of_nat v"
  shows "round_double (of_nat v + d) = Finite (of_nat v)"
proof -
  from assms(1) obtain k where k: "2 ^ k \<le> v" "v < 2 ^ (k + 1)"
    using ex_power_ivl1 [of 2 v] by auto
  have "k < 53"
  proof (rule ccontr)
    assume "\<not> k < 53"
    then have "(2::nat) ^ 53 \<le> 2 ^ k" by (intro power_increasing) simp_all
    with k(1) assms(2) show False by (simp del: power_numeral)
  qed
  then have "k \<le> 52" by simp
  then obtain t where t: "k + t = 52" using le_Suc_ex by metis
  define m where "m = v * 2 ^ t"
  define f where "f = d * 2 ^ t"
  have p52: "(2::nat) ^ k * 2 ^ t = 2 ^ 52" by (simp only: power_add [symmetric] t)
  have p53: "(2::nat) ^ (k + 1) * 2 ^ t = 2 ^ Suc 52"
    by (simp only: power_add [symmetric] add.assoc add.commute [of 1 t] t [symmetric] Suc_eq_plus1)
  have m_lo: "2 ^ 52 \<le> m"
    using mult_le_mono1 [OF k(1), of "2 ^ t"] by (simp only: m_def p52)
  have m_hi: "m < 2 ^ Suc 52"
    using mult_strict_right_mono [OF k(2), of "2 ^ t"] by (simp only: m_def p53) simp
  have f0: "0 \<le> f" using assms(3) by (simp add: f_def)
  have "f * 2 ^ 54 = (d * 2 ^ 54) * 2 ^ t" by (simp only: f_def ac_simps)
  also have "\<dots> \<le> of_nat v * 2 ^ t" using assms(4) by (intro mult_right_mono) simp_all
  also have "\<dots> = of_nat m" by (simp add: m_def)
  also have "\<dots> < 2 ^ Suc 52" using m_hi by (rule of_nat_less_two_power)
  finally have "f * 2 ^ 54 < 2 ^ 53" by simp
  then have f_half: "f < 1 / 2" by simp
  have val: "(of_nat m + f) / 2 ^ t = of_nat v + d"
    by (simp add: m_def f_def add_divide_distrib)
  have "round_to 53 1074 ((of_nat m + f) / 2 ^ t)
          = of_int (round_half_even (of_nat m + f)) / 2 ^ t"
    using m_lo m_hi _ f0 _ _
  proof (rule round_to_mantissa)
    show "f < 1" using f_half by simp
    show "t \<le> 1074" using t by simp
  qed simp
  also have "round_half_even (of_nat m + f) = int m"
    using round_half_even_near [OF f0 f_half, of "int m"] by simp
  also have "of_int (int m) / (2::rat) ^ t = of_nat v" by (simp add: m_def)
  finally have r: "round_to 53 1074 (of_nat v + d) = of_nat v" by (simp only: val)
  have pos: "0 < rat_of_nat v + d" using assms(1,3) by (simp add: add_pos_nonneg)
  have "rat_of_nat v < 2 ^ 53"
    using assms(2) by (rule of_nat_less_two_power)
  also have "(2::rat) ^ 53 \<le> 2 ^ 1024" by (intro power_increasing) simp_all
  finally have "\<not> 2 ^ 1024 \<le> rat_of_nat v" by (simp only: not_le)
  with pos show ?thesis
    by (simp only: round_double_def r Let_def abs_of_pos sgn_pos if_False mult_1)
qed

lemma round_double_0: "round_double 0 = Finite 0"
  by (simp add: round_double_def round_to_def round_half_even_def bit_length.simps [of 0])

lemma round_double_nat: "n < 2 ^ 53 \<Longrightarrow> round_double (of_nat n) = Finite (of_nat n)"
  using round_double_near_nat [of n 0] by (cases "n = 0") (simp_all add: round_double_0)

lemma multiply_Finite: "multiply (Finite x) (Finite y) = round_double (x * y)"
  by (simp add: multiply_def)

lemma number_0_8_value: "number_0_8 = Finite (3602879701896397 / 4503599627370496)"
proof -
  have "round_to 53 1074 ((of_nat 7205759403792793 + 3 / 5) / 2 ^ 53)
          = of_int (round_half_even (of_nat 7205759403792793 + 3 / 5)) / 2 ^ 53"
    by (rule round_to_mantissa [where k = 52]) simp_all
  moreover have "\<lfloor>rat_of_nat 7205759403792793 + 3 / 5\<rfloor> = 7205759403792793"
    by (rule floor_unique) simp_all
  then have "round_half_even (of_nat 7205759403792793 + 3 / 5) = 7205759403792794"
    by (simp add: round_half_even_def Let_def)
  moreover have "(rat_of_nat 7205759403792793 + 3 / 5) / 2 ^ 53 = 8 / 10" by simp
  ultimately have "round_to 53 1074 (8 / 10) = 7205759403792794 / 2 ^ 53" by simp
  then show ?thesis
    by (simp add: number_0_8_def round_double_def)
qed

section \<open>Facts about the string operations\<close>

lemma split_not_Nil: "separator \<noteq> [] \<Longrightarrow> split s separator \<noteq> []"
  by (induction s separator rule: split.induct) (auto split: list.splits)

lemma includes_str_single: "includes_str s [c] \<longleftrightarrow> c \<in> set s"
  by (induction s) auto

text \<open>Without an occurrence of the separator the string is the only piece; with one
  there are at least two pieces.\<close>

lemma split_no_occurrence:
  "separator \<noteq> [] \<Longrightarrow> \<not> includes_str s separator \<Longrightarrow> split s separator = [s]"
  by (induction s separator rule: split.induct) (auto split: list.splits)

lemma split_occurrence_length:
  "separator \<noteq> [] \<Longrightarrow> includes_str s separator \<Longrightarrow> 2 \<le> length (split s separator)"
proof (induction s separator rule: split.induct)
  case (3 c cs d ds)
  show ?case
  proof (cases "prefix (d # ds) (c # cs)")
    case True
    have "split (drop (length (d # ds)) (c # cs)) (d # ds) \<noteq> []"
      by (rule split_not_Nil) simp
    with True show ?thesis
      by (cases "split (drop (length ds) cs) (d # ds)") simp_all
  next
    case False
    with "3.prems" have "includes_str cs (d # ds)" by auto
    with False "3.IH"(2) have "2 \<le> length (split cs (d # ds))" by simp
    with False show ?thesis by (cases "split cs (d # ds)") auto
  qed
qed simp_all

text \<open>The first piece ends where the separator first occurs: no occurrence starts
  inside \<open>pre\<close> when none lies within \<open>pre\<close> followed by all but the last code unit of the
  separator.\<close>

lemma split_first_occurrence:
  assumes "separator \<noteq> []" and "\<not> includes_str (pre @ butlast separator) separator"
  shows "split (pre @ separator @ post) separator = pre # split post separator"
  using assms
proof (induction pre)
  case Nil
  then obtain d ds where sep: "separator = d # ds" by (cases separator) auto
  show ?case unfolding sep by simp
next
  case (Cons p pre)
  then obtain d ds where sep: "separator = d # ds" by (cases separator) auto
  from Cons.prems(1) obtain bs l where snoc: "separator = bs @ [l]"
    by (cases separator rule: rev_cases) auto
  from Cons.prems(2) have np: "\<not> prefix separator (p # pre @ bs)"
    and ni: "\<not> includes_str (pre @ butlast separator) separator"
    by (simp_all add: snoc)
  have "\<not> prefix separator (p # pre @ separator @ post)"
  proof
    assume "prefix separator (p # pre @ separator @ post)"
    then have "prefix separator ((p # pre @ bs) @ (l # post))"
      by (simp add: snoc)
    moreover have "prefix (p # pre @ bs) ((p # pre @ bs) @ (l # post))"
      by (rule prefixI) simp
    moreover have "length separator \<le> length (p # pre @ bs)"
      by (simp add: snoc)
    ultimately have "prefix separator (p # pre @ bs)"
      by (rule prefix_length_prefix)
    with np show False ..
  qed
  then have "\<not> prefix (d # ds) (p # pre @ (d # ds) @ post)"
    by (simp add: sep)
  moreover have "split (pre @ (d # ds) @ post) (d # ds) = pre # split post (d # ds)"
    using Cons.IH [OF Cons.prems(1) ni] by (simp only: sep)
  ultimately show ?case
    unfolding sep by (simp del: Cons_prefix_Cons)
qed

lemma split_hd_prefix:
  "separator \<noteq> [] \<Longrightarrow> split s separator = r # pieces \<Longrightarrow> prefix r s"
proof (induction s separator arbitrary: r pieces rule: split.induct)
  case (3 c cs d ds)
  show ?case
  proof (cases "prefix (d # ds) (c # cs)")
    case True
    with "3.prems" show ?thesis by simp
  next
    case False
    then obtain p ps where sp: "split cs (d # ds) = p # ps"
      using split_not_Nil [of "d # ds" cs] by (cases "split cs (d # ds)") auto
    with False "3.IH"(2) have "prefix p cs" by simp
    with False sp "3.prems" show ?thesis by auto
  qed
qed simp_all

text \<open>Splitting at a single code unit: a first piece free of it is found as it is.\<close>

lemma split_char_first:
  assumes "c \<notin> set line" and "tail = [] \<or> hd tail = c"
  shows "\<exists>lines. split (line @ tail) [c] = line # lines"
proof (cases tail)
  case Nil
  with assms(1) show ?thesis
    by (simp add: split_no_occurrence includes_str_single)
next
  case (Cons t ts)
  with assms(2) have "tail = [c] @ ts" by simp
  moreover have "split (line @ [c] @ ts) [c] = line # split ts [c]"
    by (rule split_first_occurrence) (simp_all add: includes_str_single assms(1))
  ultimately show ?thesis by simp
qed

text \<open>The first piece of a split at a single code unit is what stands before its
  first occurrence.\<close>

lemma split_first_entry:
  "item (split s [c]) 0 = Some (takeWhile (\<lambda>x. x \<noteq> c) s)"
proof -
  have "c \<notin> set (takeWhile (\<lambda>x. x \<noteq> c) s)"
    by (auto dest: set_takeWhileD)
  moreover have "dropWhile (\<lambda>x. x \<noteq> c) s = [] \<or> hd (dropWhile (\<lambda>x. x \<noteq> c) s) = c"
    using hd_dropWhile [of "\<lambda>x. x \<noteq> c" s] by auto
  ultimately obtain pieces where
    "split (takeWhile (\<lambda>x. x \<noteq> c) s @ dropWhile (\<lambda>x. x \<noteq> c) s) [c]
       = takeWhile (\<lambda>x. x \<noteq> c) s # pieces"
    using split_char_first by blast
  then show ?thesis by (simp add: item_def)
qed

text \<open>A token free of the separator's first code unit stays whole in the first piece.\<close>

lemma split_token_first:
  assumes "d \<notin> set token" and "post = [] \<or> hd post = d"
  shows "\<exists>post' pieces. split (token @ post) (d # ds) = (token @ post') # pieces
           \<and> (post' = [] \<or> hd post' = d)"
  using assms(1)
proof (induction token)
  case Nil
  obtain r pieces where sp: "split post (d # ds) = r # pieces"
    using split_not_Nil [of "d # ds" post] by (cases "split post (d # ds)") auto
  then have "prefix r post" by (rule split_hd_prefix [rotated]) simp
  with assms(2) have "r = [] \<or> hd r = d"
    by (cases r; cases post) auto
  with sp show ?case by auto
next
  case (Cons t token)
  then obtain post' pieces where
    "split (token @ post) (d # ds) = (token @ post') # pieces" "post' = [] \<or> hd post' = d"
    by auto
  moreover from Cons.prems have "t \<noteq> d" by auto
  ultimately show ?case by auto
qed

lemma split_lines_blank:
  "split (replicate n CHR ''\<newline>'' @ rest) ''\<newline>'' = replicate n [] @ split rest ''\<newline>''"
  by (induction n) simp_all

section \<open>Facts about parseInt\<close>

declare decimal.simps [simp del]

lemma digitValue_digit: "d < 10 \<Longrightarrow> digitValue (digit d) = Some d"
  by (simp add: digitValue_def digit_def Let_def)

lemma isRadixDigit_10: "isRadixDigit 10 c \<longleftrightarrow> 48 \<le> (of_char c :: nat) \<and> (of_char c :: nat) \<le> 57"
  by (auto simp: isRadixDigit_def digitValue_def Let_def)

lemma isWhiteSpace_code: "isWhiteSpace c \<Longrightarrow> (of_char c :: nat) \<in> {9, 10, 11, 12, 13, 32, 160}"
  by (auto simp: isWhiteSpace_def)

lemma decimal_digits: "c \<in> set (decimal n) \<Longrightarrow> isRadixDigit 10 c"
proof (induction n rule: decimal.induct)
  case (1 n)
  have d: "isRadixDigit 10 (digit k)" if "k < 10" for k
    using that by (simp add: isRadixDigit_def digitValue_digit)
  show ?case
  proof (cases "n < 10")
    case True
    with "1.prems" show ?thesis by (subst (asm) decimal.simps) (simp add: d)
  next
    case False
    with "1.prems" have "c \<in> set (decimal (n div 10)) \<or> c = digit (n mod 10)"
      by (subst (asm) decimal.simps) auto
    with False "1.IH" show ?thesis by (auto simp: d)
  qed
qed

lemma decimal_not_Nil: "decimal n \<noteq> []"
  by (subst decimal.simps) simp

lemma mathInt_snoc:
  "mathInt R (Z @ [c]) = mathInt R Z * int R + int (case digitValue c of None \<Rightarrow> 0 | Some v \<Rightarrow> v)"
  by (simp add: mathInt_def)

lemma mathInt_decimal: "mathInt 10 (decimal n) = int n"
proof (induction n rule: decimal.induct)
  case (1 n)
  show ?case
  proof (cases "n < 10")
    case True
    then show ?thesis
      by (subst decimal.simps) (simp add: mathInt_def digitValue_digit)
  next
    case False
    with 1 have "mathInt 10 (decimal (n div 10)) = int (n div 10)" by simp
    moreover have "int (n div 10) * 10 + int (n mod 10) = int n"
      by (simp add: zdiv_int zmod_int)
    ultimately show ?thesis using False
      by (subst decimal.simps) (simp add: mathInt_snoc digitValue_digit)
  qed
qed

lemma parseInt_digits:
  assumes "ds \<noteq> []" and "\<forall>c \<in> set ds. isRadixDigit 10 c"
    and "rest = [] \<or> (\<not> isRadixDigit 10 (hd rest) \<and> hd rest \<noteq> CHR ''x'' \<and> hd rest \<noteq> CHR ''X'')"
  shows "parseInt (ds @ rest) = JNumber (round_double (of_int (mathInt 10 ds)))"
proof -
  from assms(1) obtain d ds' where ds: "ds = d # ds'" by (cases ds) auto
  with assms(2) have d: "isRadixDigit 10 d" by simp
  then have code: "48 \<le> (of_char d :: nat)" "(of_char d :: nat) \<le> 57"
    by (simp_all add: isRadixDigit_10)
  have nw: "\<not> isWhiteSpace d" using isWhiteSpace_code [of d] code by auto
  have ns: "d \<noteq> CHR ''-''" "d \<noteq> CHR ''+''" using code by auto
  have nx: "\<not> prefix ''0x'' (ds @ rest)" "\<not> prefix ''0X'' (ds @ rest)"
  proof -
    have "hd (ds' @ rest) \<noteq> CHR ''x'' \<and> hd (ds' @ rest) \<noteq> CHR ''X''" if "ds' @ rest \<noteq> []"
    proof (cases ds')
      case Nil
      with that assms(3) show ?thesis by auto
    next
      case (Cons e es)
      with assms(2) ds have "isRadixDigit 10 e" by simp
      then have "48 \<le> (of_char e :: nat)" "(of_char e :: nat) \<le> 57"
        by (simp_all add: isRadixDigit_10)
      then have "e \<noteq> CHR ''x''" "e \<noteq> CHR ''X''" by auto
      with Cons show ?thesis by simp
    qed
    then show "\<not> prefix ''0x'' (ds @ rest)" "\<not> prefix ''0X'' (ds @ rest)"
      by (cases "ds' @ rest"; auto simp: ds)+
  qed
  have tw: "takeWhile (isRadixDigit 10) (ds @ rest) = ds"
    using assms(2,3) by (cases rest) simp_all
  have dw: "dropWhile isWhiteSpace (ds @ rest) = ds @ rest"
    using nw by (simp add: ds)
  have np: "\<not> prefix ''-'' (ds @ rest)" "\<not> prefix ''+'' (ds @ rest)"
    using ns by (simp_all add: ds)
  show ?thesis
    unfolding parseInt_def dw Let_def using np nx tw assms(1) by simp
qed

lemma parseInt_decimal_ms:
  assumes "n < 2 ^ 53"
  shows "parseInt (decimal n @ ''ms'') = JNum (of_nat n)"
proof -
  have "parseInt (decimal n @ ''ms'') = JNumber (round_double (of_int (mathInt 10 (decimal n))))"
  proof (rule parseInt_digits)
    show "decimal n \<noteq> []" by (rule decimal_not_Nil)
    show "\<forall>c \<in> set (decimal n). isRadixDigit 10 c" by (simp add: decimal_digits)
    show "''ms'' = [] \<or> (\<not> isRadixDigit 10 (hd ''ms'') \<and> hd ''ms'' \<noteq> CHR ''x''
            \<and> hd ''ms'' \<noteq> CHR ''X'')"
      by (simp add: isRadixDigit_10)
  qed
  also have "rat_of_int (mathInt 10 (decimal n)) = of_nat n"
    by (simp only: mathInt_decimal of_int_of_nat_eq)
  also have "round_double (of_nat n) = Finite (of_nat n)"
    using assms by (rule round_double_nat)
  finally show ?thesis .
qed

section \<open>Facts about the loop of parseTailscaleOutput\<close>

lemma body_blank: "body [] hb = (Next, hb)"
  by (simp add: body_def)

lemma body_not_Next: "line \<noteq> [] \<Longrightarrow> fst (body line hb) \<noteq> Next"
  by (simp add: body_def Let_def split: option.splits)

lemma loop_blank_lines: "loop (replicate n [] @ lines) hb = loop lines hb"
  by (induction n) (simp_all add: body_blank)

text \<open>A non-blank line decides: the lines after it are not looked at.\<close>

lemma loop_decisive: "line \<noteq> [] \<Longrightarrow> loop (line # lines) hb = loop [line] hb"
  using body_not_Next [of line hb]
  by (cases "body line hb") (auto split: flow.splits)

text \<open>An output that is \<open>n\<close> empty lines, then a non-blank line, then anything.\<close>

lemma parse_decisive:
  assumes "out = replicate n CHR ''\<newline>'' @ line @ tail"
    and "CHR ''\<newline>'' \<notin> set line" and "line \<noteq> []"
    and "tail = [] \<or> hd tail = CHR ''\<newline>''"
  shows "parseTailscaleOutput out hb = loop [line] hb"
proof -
  from split_char_first [OF assms(2,4)] obtain lines
    where "split (line @ tail) ''\<newline>'' = line # lines" ..
  then have "split out ''\<newline>'' = replicate n [] @ line # lines"
    by (simp add: assms(1) split_lines_blank)
  then have "parseTailscaleOutput out hb = loop (line # lines) hb"
    by (simp add: parseTailscaleOutput_def loop_blank_lines del: loop.simps)
  also have "\<dots> = loop [line] hb"
    by (rule loop_decisive [OF assms(3)])
  finally show ?thesis .
qed

lemma body_pong_token:
  assumes "includes_str line ''pong from''"
    and "line = pre @ '' in '' @ token @ post"
    and "\<not> includes_str (pre @ '' in'') '' in ''"
    and "CHR '' '' \<notin> set token"
    and "post = [] \<or> hd post = CHR '' ''"
  shows "body line hb = (Break, hb\<lparr>status := UP, ping := parseInt token, msg := JStr line\<rparr>)"
proof -
  have "split (pre @ '' in '' @ (token @ post)) '' in '' = pre # split (token @ post) '' in ''"
    by (rule split_first_occurrence) (simp_all add: assms(3))
  moreover obtain post' pieces where
    part: "split (token @ post) '' in '' = (token @ post') # pieces"
    and post': "post' = [] \<or> hd post' = CHR '' ''"
    using split_token_first [OF assms(4,5), of "''in ''"] by auto
  ultimately have one: "item (split line '' in '') 1 = Some (token @ post')"
    by (simp add: assms(2) item_def)
  from split_char_first [OF assms(4) post'] obtain ws
    where "split (token @ post') '' '' = token # ws" by auto
  then have zero: "item (split (token @ post') '' '') 0 = Some token"
    by (simp add: item_def)
  from one zero show ?thesis
    by (simp add: body_def assms(1) ToString_def)
qed

lemma body_pong:
  assumes "includes_str line ''pong from''"
  shows "body line hb =
           (if includes_str line '' in ''
            then (Break, hb\<lparr>status := UP,
                    ping := parseInt (ToString (item (split (the (item (split line '' in '') 1)) '' '') 0)),
                    msg := JStr line\<rparr>)
            else (Throw TypeError, hb\<lparr>status := UP\<rparr>))"
proof (cases "includes_str line '' in ''")
  case True
  then have "2 \<le> length (split line '' in '')"
    by (intro split_occurrence_length) simp_all
  then have "item (split line '' in '') 1 \<noteq> None" by (simp add: item_def)
  with True assms show ?thesis by (auto simp: body_def)
next
  case False
  then have "split line '' in '' = [line]" by (intro split_no_occurrence) simp_all
  with False assms show ?thesis by (simp add: body_def item_def)
qed

lemma body_failure:
  assumes "\<not> includes_str line ''pong from''" and "line \<noteq> []"
  shows "body line hb =
    (Throw (Error (
       if includes_str line ''timed out'' then ''Ping timed out: '' @ quoted line
       else if includes_str line ''no matching peer''
         then ''Nonexistant or inaccessible due to ACLs: '' @ quoted line
       else if includes_str line ''is local Tailscale IP''
         then ''Tailscale only works if used on other machines: '' @ quoted line
       else ''Unexpected output: '' @ quoted line)), hb)"
  using assms by (simp add: body_def)

lemma body_not_pong_snd: "\<not> includes_str line ''pong from'' \<Longrightarrow> snd (body line hb) = hb"
  by (simp add: body_def)

lemma body_change:
  "snd (body line hb) = hb
   \<or> (status (snd (body line hb)) = UP \<and> includes_str line ''pong from'')"
  by (cases "includes_str line ''pong from''")
     (simp_all add: body_pong body_not_pong_snd)

lemma loop_change:
  "snd (loop lines hb) = hb
   \<or> (status (snd (loop lines hb)) = UP
       \<and> (\<exists>line. find (\<lambda>l. l \<noteq> []) lines = Some line \<and> includes_str line ''pong from''))"
proof (induction lines)
  case Nil
  show ?case by simp
next
  case (Cons line lines)
  show ?case
  proof (cases "line = []")
    case True
    with Cons show ?thesis by (auto simp: body_blank)
  next
    case False
    then have "loop (line # lines) hb = loop [line] hb" by (rule loop_decisive)
    moreover have "snd (loop [line] hb) = snd (body line hb)"
      using body_not_Next [OF False, of hb]
      by (cases "body line hb") (auto split: flow.splits)
    ultimately show ?thesis using body_change [of line hb] False by auto
  qed
qed

text \<open>An \<open>Error\<close> is thrown only by a branch that has not written to the heartbeat.\<close>

lemma body_Error_snd: "fst (body line hb) = Throw (Error m) \<Longrightarrow> snd (body line hb) = hb"
  by (cases "includes_str line ''pong from''")
     (simp_all add: body_pong body_not_pong_snd split: if_splits)

lemma loop_Error_snd: "fst (loop lines hb) = Some (Error m) \<Longrightarrow> snd (loop lines hb) = hb"
proof (induction lines)
  case Nil
  then show ?case by simp
next
  case (Cons line lines)
  show ?case
  proof (cases "line = []")
    case True
    with Cons show ?thesis by (simp add: body_blank)
  next
    case False
    obtain fl hb' where b: "body line hb = (fl, hb')" by (cases "body line hb")
    with body_not_Next [OF False, of hb] have "fl \<noteq> Next" by simp
    with b Cons.prems have "fl = Throw (Error m)"
      by (cases fl) simp_all
    with b body_Error_snd [of line hb m] show ?thesis by simp
  qed
qed

section \<open>Facts about getTimezone\<close>

text \<open>Each step only appends to the log.\<close>

lemma fromGuess_extends: "\<exists>rest. snd (fromGuess formats tzGuess logged) = logged @ rest"
  by (auto simp: fromGuess_def Let_def split: sum.splits option.splits)

lemma fromSettings_extends:
  "\<exists>rest. snd (fromSettings formats timezone tzGuess logged) = logged @ rest"
proof -
  have g: "\<exists>rest. snd (fromGuess formats tzGuess (logged @ extra)) = logged @ rest" for extra
    using fromGuess_extends [of formats tzGuess "logged @ extra"] by auto
  show ?thesis
    using g [of "[(Debug, ''timezone'', ''Using timezone from settings: '' @ shown ''null'' timezone)]"]
      g [of "[(Debug, ''timezone'', ''Using timezone from settings: '' @ shown ''null'' timezone),
              (Warn, ''timezone'', message (Error (''Invalid timezone:'' @ the timezone)) @ '' in settings'')]"]
    by (auto simp: fromSettings_def Let_def checkTimezone_def split: sum.splits option.splits)
qed

section \<open>Serialization views\<close>

text \<open>
  C4, as stated: the public view has the fields of the full view, with only \<open>msg\<close>
  replaced by the empty string. It fails: the public view of \<open>hb0\<close> has four properties
  and the full view has seven; \<open>monitorID\<close>, for one, is in the full view only.
\<close>

theorem toPublicJSON_not_full_view_counterexample:
  "map fst (toPublicJSON hb0) \<noteq> map fst (toJSON hb0)
   \<and> map_of (toJSON hb0) ''monitorID'' = Some (JNum 7)
   \<and> map_of (toPublicJSON hb0) ''monitorID'' = None"
  by (simp add: toPublicJSON_def toJSON_def hb0_def)

text \<open>
  C4, amended: the public view is the full view restricted to the properties \<open>status\<close>,
  \<open>time\<close>, \<open>msg\<close> and \<open>ping\<close>, in that order, with \<open>msg\<close> replaced by the empty string;
  \<open>monitorID\<close>, \<open>important\<close> and \<open>duration\<close> are not part of it.
\<close>

theorem toPublicJSON_is_restricted_full_view:
  "toPublicJSON hb =
     map (\<lambda>(k, v). if k = ''msg'' then (k, JStr '''') else (k, v))
       (filter (\<lambda>(k, v). k \<in> {''status'', ''time'', ''msg'', ''ping''}) (toJSON hb))
   \<and> map fst (toPublicJSON hb) = [''status'', ''time'', ''msg'', ''ping'']
   \<and> map fst (toJSON hb) =
       [''monitorID'', ''status'', ''time'', ''msg'', ''ping'', ''important'', ''duration'']"
  by (simp add: toPublicJSON_def toJSON_def)

text \<open>
  C5: whatever message a heartbeat stores, the public view's \<open>msg\<close> is the empty string
  and the full view's \<open>msg\<close> is the stored message.
\<close>

theorem msg_hidden_in_public_kept_in_full:
  "map_of (toPublicJSON hb) ''msg'' = Some (JStr '''')
   \<and> map_of (toJSON hb) ''msg'' = Some (msg hb)"
  by (simp add: toPublicJSON_def toJSON_def)

section \<open>Running the ping\<close>

text \<open>
  C7: for every interval of \<open>n\<close> whole seconds (with \<open>1000 * n\<close> below \<open>2 ^ 53\<close>, which
  \<open>MAX_INTERVAL_SECOND = 2073600\<close> is), \<open>runTailscalePing\<close> calls \<open>exec\<close> with the timeout
  of exactly \<open>n * 1000 * 0.8\<close> milliseconds: the two rounded products of the code equal
  the exact product. For 10 seconds it is 8000.
\<close>

theorem exec_timeout:
  fixes n :: nat
  assumes "1000 * n < 2 ^ 53"
  shows "runTailscalePing exec hostname (Finite (of_nat n)) logged =
           (callback (exec (''tailscale ping '' @ hostname)
                        \<lparr>timeout = Finite (of_nat n * 1000 * (8 / 10))\<rparr>),
            logged @ [(Debug, ''Tailscale'', ''tailscale ping '' @ hostname)])"
proof -
  have "rat_of_nat n * 1000 = of_nat (1000 * n)" by simp
  moreover have "round_double (of_nat (1000 * n)) = Finite (of_nat (1000 * n))"
    using assms by (rule round_double_nat)
  ultimately have first: "multiply (Finite (of_nat n)) (Finite 1000) = Finite (of_nat (1000 * n))"
    by (simp only: multiply_Finite)
  have second: "round_double (rat_of_nat (1000 * n) * (3602879701896397 / 4503599627370496))
                  = Finite (of_nat (800 * n))"
  proof (cases "n = 0")
    case True
    then show ?thesis by (simp add: round_double_0)
  next
    case False
    have "800 * n < 2 ^ 53" using assms by simp
    moreover have "rat_of_nat (1000 * n) * (3602879701896397 / 4503599627370496)
                     = of_nat (800 * n) + of_nat n * (200 / 4503599627370496)"
      by (simp add: field_simps)
    moreover have "rat_of_nat n * (200 / 4503599627370496) * 2 ^ 54 \<le> of_nat (800 * n)"
      by simp
    ultimately show ?thesis
      using round_double_near_nat [of "800 * n" "of_nat n * (200 / 4503599627370496)"] False
      by simp
  qed
  have "multiply (multiply (Finite (of_nat n)) (Finite 1000)) number_0_8
          = multiply (Finite (of_nat (1000 * n))) number_0_8"
    by (simp only: first)
  also have "\<dots> = Finite (of_nat (800 * n))"
    by (simp only: number_0_8_value multiply_Finite second)
  also have "rat_of_nat (800 * n) = of_nat n * 1000 * (8 / 10)" by simp
  finally have "multiply (multiply (Finite (of_nat n)) (Finite 1000)) number_0_8
                  = Finite (of_nat n * 1000 * (8 / 10))" .
  then show ?thesis
    by (simp only: runTailscalePing_def Let_def)
qed

theorem exec_timeout_witness:
  "runTailscalePing exec_probe ''gateway'' (Finite 10) [] =
     (Inr ''pong from gateway (100.64.0.2) via DERP(fra) in 23ms'',
      [(Debug, ''Tailscale'', ''tailscale ping gateway'')])"
  using exec_timeout [of 10 exec_probe "''gateway''" "[]"]
  by (simp add: exec_probe_def callback_def)

section \<open>Parsing the output of the ping\<close>

text \<open>
  In the statements below an output is written as \<open>n\<close> empty lines, then the first
  non-blank line \<open>line\<close>, then \<open>tail\<close>, which is empty or starts with the line feed
  that ends \<open>line\<close>; a blank line is an empty one, as the source tests \<open>line !== ""\<close>.
\<close>

text \<open>
  C1, as stated: whenever the first non-blank line contains \<open>pong from\<close>, the status
  becomes UP, the ping is the number parsed after the first \<open>" in "\<close>, the message is
  the line, and scanning stops. It fails for a line with \<open>pong from\<close> and no \<open>" in "\<close>:
  the status is set to UP, then the call throws a TypeError; ping and message are left
  as they were.
\<close>

theorem pong_without_in_counterexample:
  "includes_str ''pong from 100.64.0.2'' ''pong from''
   \<and> parseTailscaleOutput ''pong from 100.64.0.2'' hb0 = (Some TypeError, hb0\<lparr>status := UP\<rparr>)
   \<and> msg (snd (parseTailscaleOutput ''pong from 100.64.0.2'' hb0)) \<noteq> JStr ''pong from 100.64.0.2''
   \<and> ping (snd (parseTailscaleOutput ''pong from 100.64.0.2'' hb0)) = JNull"
  by (simp add: parseTailscaleOutput_def body_def item_def hb0_def)

text \<open>
  C1, amended: when the first non-blank line contains \<open>pong from\<close> and also contains
  \<open>" in "\<close>, the call returns normally with status UP, ping the result of \<open>parseInt\<close> on
  the token between the first \<open>" in "\<close> and the following space (or the end of the
  line), and message the whole line; whatever follows the line is ignored. The line is
  \<open>pre\<close>, the first \<open>" in "\<close>, the token, and \<open>post\<close>. For a token that is the decimal
  numeral of \<open>N\<close> followed by \<open>ms\<close>, the ping is \<open>N\<close> (for \<open>N\<close> below \<open>2 ^ 53\<close>, where
  every integer is a Number).
\<close>

theorem pong_line_sets_heartbeat:
  assumes "out = replicate n CHR ''\<newline>'' @ line @ tail"
    and "CHR ''\<newline>'' \<notin> set line"
    and "tail = [] \<or> hd tail = CHR ''\<newline>''"
    and "includes_str line ''pong from''"
    and "line = pre @ '' in '' @ token @ post"
    and "\<not> includes_str (pre @ '' in'') '' in ''"
    and "CHR '' '' \<notin> set token"
    and "post = [] \<or> hd post = CHR '' ''"
  shows "parseTailscaleOutput out hb =
           (None, hb\<lparr>status := UP, ping := parseInt token, msg := JStr line\<rparr>)
    \<and> (token = decimal N @ ''ms'' \<and> N < 2 ^ 53 \<longrightarrow> parseInt token = JNum (of_nat N))"
proof -
  from assms(4) have "line \<noteq> []" by auto
  with assms(1-3) have "parseTailscaleOutput out hb = loop [line] hb"
    by (intro parse_decisive)
  then show ?thesis
    by (simp add: body_pong_token [OF assms(4-8)] parseInt_decimal_ms)
qed

theorem pong_line_sets_heartbeat_witness:
  "parseTailscaleOutput
     ''\<newline>pong from gateway (100.64.0.2) via DERP(fra) in 23ms\<newline>timed out''
     hb0
   = (None, hb0\<lparr>status := UP, ping := JNum 23,
        msg := JStr ''pong from gateway (100.64.0.2) via DERP(fra) in 23ms''\<rparr>)"
proof -
  have d: "decimal 23 @ ''ms'' = ''23ms''"
    by (simp add: decimal.simps [of 23] decimal.simps [of 2] digit_def char_of_eq_iff)
  have "parseTailscaleOutput
     ''\<newline>pong from gateway (100.64.0.2) via DERP(fra) in 23ms\<newline>timed out''
     hb0 = (None, hb0\<lparr>status := UP, ping := parseInt ''23ms'',
        msg := JStr ''pong from gateway (100.64.0.2) via DERP(fra) in 23ms''\<rparr>)
    \<and> (''23ms'' = decimal 23 @ ''ms'' \<and> (23::nat) < 2 ^ 53
          \<longrightarrow> parseInt ''23ms'' = JNum (of_nat 23))"
    by (rule pong_line_sets_heartbeat
      [where n = 1 and tail = "''\<newline>timed out''"
         and pre = "''pong from gateway (100.64.0.2) via DERP(fra)''" and post = "''''"])
       simp_all
  with d show ?thesis by simp
qed

text \<open>
  C2, as stated: whenever the call raises a failure instead of a success, the heartbeat
  is left untouched, and the heartbeat is written only in the success case. It fails
  for a line with \<open>pong from\<close> and no \<open>" in "\<close>: the call throws a TypeError, and the
  heartbeat it was given, of status PENDING, is left with status UP.
\<close>

theorem failure_mutates_counterexample:
  "fst (parseTailscaleOutput ''pong from gateway'' hb0) = Some TypeError
   \<and> snd (parseTailscaleOutput ''pong from gateway'' hb0) \<noteq> hb0
   \<and> status (snd (parseTailscaleOutput ''pong from gateway'' hb0)) = UP
   \<and> status hb0 = PENDING"
  by (simp add: parseTailscaleOutput_def body_def item_def hb0_def UP_def PENDING_def)

text \<open>
  C2, amended: when the first non-blank line does not contain \<open>pong from\<close> (the four
  failure branches), the call throws an \<open>Error\<close> and the heartbeat is exactly the one
  supplied; for every output, a call that throws an \<open>Error\<close> leaves the heartbeat as
  supplied. For every output, the heartbeat is either the one supplied, or its status
  is UP and the first non-blank line contains \<open>pong from\<close>: the checker never writes
  DOWN, and it writes only in the branch of \<open>pong from\<close>.
\<close>

theorem failure_leaves_heartbeat_untouched:
  "(out = replicate n CHR ''\<newline>'' @ line @ tail \<and> CHR ''\<newline>'' \<notin> set line \<and> line \<noteq> []
      \<and> (tail = [] \<or> hd tail = CHR ''\<newline>'') \<and> \<not> includes_str line ''pong from''
    \<longrightarrow> (\<exists>m. parseTailscaleOutput out hb = (Some (Error m), hb)))
   \<and> (fst (parseTailscaleOutput out hb) = Some (Error e) \<longrightarrow> snd (parseTailscaleOutput out hb) = hb)
   \<and> (snd (parseTailscaleOutput out hb) = hb
        \<or> (status (snd (parseTailscaleOutput out hb)) = UP
            \<and> (\<exists>l. find (\<lambda>l. l \<noteq> []) (split out ''\<newline>'') = Some l
                     \<and> includes_str l ''pong from'')))"
proof (intro conjI impI)
  assume a: "out = replicate n CHR ''\<newline>'' @ line @ tail \<and> CHR ''\<newline>'' \<notin> set line \<and> line \<noteq> []
      \<and> (tail = [] \<or> hd tail = CHR ''\<newline>'') \<and> \<not> includes_str line ''pong from''"
  then have "parseTailscaleOutput out hb = loop [line] hb"
    by (intro parse_decisive) blast+
  with a show "\<exists>m. parseTailscaleOutput out hb = (Some (Error m), hb)"
    by (simp add: body_failure)
next
  assume "fst (parseTailscaleOutput out hb) = Some (Error e)"
  then show "snd (parseTailscaleOutput out hb) = hb"
    by (simp add: parseTailscaleOutput_def loop_Error_snd)
next
  show "snd (parseTailscaleOutput out hb) = hb
        \<or> (status (snd (parseTailscaleOutput out hb)) = UP
            \<and> (\<exists>l. find (\<lambda>l. l \<noteq> []) (split out ''\<newline>'') = Some l
                     \<and> includes_str l ''pong from''))"
    using loop_change [of "split out ''\<newline>''" hb]
    by (simp add: parseTailscaleOutput_def)
qed

theorem failure_leaves_heartbeat_untouched_witness:
  "(\<exists>m. parseTailscaleOutput ''\<newline>ping gateway timed out\<newline>'' hb0 = (Some (Error m), hb0))
   \<and> status (snd (parseTailscaleOutput ''\<newline>ping gateway timed out\<newline>'' hb0)) = PENDING"
  using failure_leaves_heartbeat_untouched
    [of "''\<newline>ping gateway timed out\<newline>''" 1 "''ping gateway timed out''" "''\<newline>''" hb0]
  by (auto simp: hb0_def)

text \<open>
  C3, as stated: a first non-blank line containing \<open>timed out\<close> raises the timeout
  failure, and one containing \<open>no matching peer\<close> raises the unreachable-peer failure.
  It fails where a line holds two markers, since the tests are made in a fixed order: a
  line with \<open>pong from\<close> and \<open>timed out\<close> is a success, and a line with \<open>timed out\<close> and
  \<open>no matching peer\<close> raises the timeout failure.
\<close>

theorem marker_order_counterexample:
  "includes_str ''pong from gw in 31ms (first probe timed out)'' ''timed out''
   \<and> fst (parseTailscaleOutput ''pong from gw in 31ms (first probe timed out)'' hb0) = None
   \<and> includes_str ''timed out: no matching peer'' ''no matching peer''
   \<and> parseTailscaleOutput ''timed out: no matching peer'' hb0 =
       (Some (Error (''Ping timed out: '' @ quoted ''timed out: no matching peer'')), hb0)
   \<and> fst (parseTailscaleOutput ''timed out: no matching peer'' hb0) \<noteq>
       Some (Error (''Nonexistant or inaccessible due to ACLs: ''
                     @ quoted ''timed out: no matching peer''))"
  by (simp add: parseTailscaleOutput_def body_def item_def hb0_def quoted_def)

text \<open>
  C3, amended: let the first non-blank line not contain \<open>pong from\<close>. If it contains
  \<open>timed out\<close>, the timeout error is thrown; otherwise, if it contains
  \<open>no matching peer\<close>, the unreachable-peer error; otherwise, if it contains
  \<open>is local Tailscale IP\<close>, the self-target error; otherwise the unexpected-output
  error. Each message ends with the line, verbatim, between double quotes, and the
  heartbeat is the one supplied. The empty lines before the line trigger nothing.
\<close>

theorem failure_kinds:
  assumes "out = replicate n CHR ''\<newline>'' @ line @ tail"
    and "CHR ''\<newline>'' \<notin> set line" and "line \<noteq> []"
    and "tail = [] \<or> hd tail = CHR ''\<newline>''"
    and "\<not> includes_str line ''pong from''"
  shows "(includes_str line ''timed out'' \<longrightarrow>
            parseTailscaleOutput out hb = (Some (Error (''Ping timed out: '' @ quoted line)), hb))
    \<and> (\<not> includes_str line ''timed out'' \<and> includes_str line ''no matching peer'' \<longrightarrow>
            parseTailscaleOutput out hb =
              (Some (Error (''Nonexistant or inaccessible due to ACLs: '' @ quoted line)), hb))
    \<and> (\<not> includes_str line ''timed out'' \<and> \<not> includes_str line ''no matching peer''
          \<and> includes_str line ''is local Tailscale IP'' \<longrightarrow>
            parseTailscaleOutput out hb =
              (Some (Error (''Tailscale only works if used on other machines: '' @ quoted line)),
               hb))
    \<and> (\<not> includes_str line ''timed out'' \<and> \<not> includes_str line ''no matching peer''
          \<and> \<not> includes_str line ''is local Tailscale IP'' \<longrightarrow>
            parseTailscaleOutput out hb =
              (Some (Error (''Unexpected output: '' @ quoted line)), hb))"
proof -
  have "parseTailscaleOutput out hb = loop [line] hb"
    using assms(1-4) by (rule parse_decisive)
  then show ?thesis
    by (simp add: body_failure [OF assms(5,3)])
qed

theorem failure_kinds_witness:
  "parseTailscaleOutput ''\<newline>\<newline>no matching peer\<newline>pong from gw in 3ms'' hb0 =
     (Some (Error (''Nonexistant or inaccessible due to ACLs: '' @ quoted ''no matching peer'')),
      hb0)
   \<and> parseTailscaleOutput ''\<newline>Health check: not logged in'' hb0 =
     (Some (Error (''Unexpected output: '' @ quoted ''Health check: not logged in'')), hb0)"
  using failure_kinds [of "''\<newline>\<newline>no matching peer\<newline>pong from gw in 3ms''" 2
      "''no matching peer''" "''\<newline>pong from gw in 3ms''" hb0]
    failure_kinds [of "''\<newline>Health check: not logged in''" 1
      "''Health check: not logged in''" "''''" hb0]
  by (simp add: numeral_2_eq_2)

text \<open>
  C6: an output made of line feeds only, the empty output included, makes the call
  return normally with the heartbeat it was given.
\<close>

theorem blank_output_returns_untouched:
  assumes "\<forall>c \<in> set out. c = CHR ''\<newline>''"
  shows "parseTailscaleOutput out hb = (None, hb)"
proof -
  from assms have "out = replicate (length out) CHR ''\<newline>'' @ []"
    by (simp add: replicate_length_same)
  then have "split out ''\<newline>'' = replicate (length out) [] @ split [] ''\<newline>''"
    using split_lines_blank [of "length out" "[]"] by simp
  then show ?thesis
    by (simp add: parseTailscaleOutput_def loop_blank_lines body_blank)
qed

theorem blank_output_returns_untouched_witness:
  "parseTailscaleOutput ''\<newline>\<newline>\<newline>'' hb0 = (None, hb0)
   \<and> parseTailscaleOutput [] hb0 = (None, hb0)"
  using blank_output_returns_untouched [of "''\<newline>\<newline>\<newline>''" hb0]
    blank_output_returns_untouched [of "[]" hb0]
  by simp

text \<open>
  C10: when the first non-blank line contains \<open>pong from\<close>, the call throws a TypeError
  exactly when the line does not contain \<open>" in "\<close>; it has then set the status to UP and
  nothing else. When the line contains \<open>" in "\<close> the call returns normally.
\<close>

theorem pong_branch_TypeError:
  assumes "out = replicate n CHR ''\<newline>'' @ line @ tail"
    and "CHR ''\<newline>'' \<notin> set line"
    and "tail = [] \<or> hd tail = CHR ''\<newline>''"
    and "includes_str line ''pong from''"
  shows "(fst (parseTailscaleOutput out hb) = Some TypeError \<longleftrightarrow> \<not> includes_str line '' in '')
    \<and> (\<not> includes_str line '' in '' \<longrightarrow>
          parseTailscaleOutput out hb = (Some TypeError, hb\<lparr>status := UP\<rparr>))
    \<and> (includes_str line '' in '' \<longrightarrow> fst (parseTailscaleOutput out hb) = None)"
proof -
  from assms(4) have "line \<noteq> []" by auto
  with assms(1-3) have "parseTailscaleOutput out hb = loop [line] hb"
    by (intro parse_decisive)
  then show ?thesis
    by (simp add: body_pong [OF assms(4)])
qed

theorem pong_branch_TypeError_witness:
  "parseTailscaleOutput ''\<newline>pong from gateway (100.64.0.2)\<newline>'' hb0 =
     (Some TypeError, hb0\<lparr>status := UP\<rparr>)
   \<and> fst (parseTailscaleOutput ''pong from gateway in '' hb0) = None"
  using pong_branch_TypeError [of "''\<newline>pong from gateway (100.64.0.2)\<newline>''" 1
      "''pong from gateway (100.64.0.2)''" "''\<newline>''" hb0]
    pong_branch_TypeError [of "''pong from gateway in ''" 0 "''pong from gateway in ''" "''''" hb0]
  by simp

section \<open>The server object\<close>

text \<open>
  C8: when \<open>process.env.TZ\<close> is set and fails the check, the warning
  \<open>Invalid timezone:<value> in process.env.TZ\<close> is appended to the log, and the
  resolution goes on as if the variable were unset; with a setting \<open>serverTimezone\<close>
  that passes the check, the timezone resolved is that setting, and the log holds the
  warning and then the debug line of the setting.
\<close>

theorem invalid_env_falls_back_to_setting:
  assumes "env \<noteq> []" and "\<not> formats env"
  shows "getTimezone formats (Some env) serverTimezone tzGuess logged =
           getTimezone formats None serverTimezone tzGuess
             (logged @ [(Warn, ''timezone'', ''Invalid timezone:'' @ env @ '' in process.env.TZ'')])
    \<and> (\<exists>rest. snd (getTimezone formats (Some env) serverTimezone tzGuess logged) =
          logged @ (Warn, ''timezone'', ''Invalid timezone:'' @ env @ '' in process.env.TZ'') # rest)
    \<and> (serverTimezone = Some tz \<and> tz \<noteq> [] \<and> formats tz \<longrightarrow>
          getTimezone formats (Some env) serverTimezone tzGuess logged =
            (tz, logged @ [(Warn, ''timezone'', ''Invalid timezone:'' @ env @ '' in process.env.TZ''),
                           (Debug, ''timezone'', ''Using timezone from settings: '' @ tz)]))"
proof (intro conjI impI)
  show "getTimezone formats (Some env) serverTimezone tzGuess logged =
           getTimezone formats None serverTimezone tzGuess
             (logged @ [(Warn, ''timezone'', ''Invalid timezone:'' @ env @ '' in process.env.TZ'')])"
    using assms by (simp add: getTimezone_def checkTimezone_def)
next
  obtain rest where
    "snd (fromSettings formats serverTimezone tzGuess
           (logged @ [(Warn, ''timezone'', ''Invalid timezone:'' @ env @ '' in process.env.TZ'')]))
       = (logged @ [(Warn, ''timezone'', ''Invalid timezone:'' @ env @ '' in process.env.TZ'')]) @ rest"
    using fromSettings_extends by blast
  with assms show "\<exists>rest. snd (getTimezone formats (Some env) serverTimezone tzGuess logged) =
          logged @ (Warn, ''timezone'', ''Invalid timezone:'' @ env @ '' in process.env.TZ'') # rest"
    by (simp add: getTimezone_def checkTimezone_def)
next
  assume "serverTimezone = Some tz \<and> tz \<noteq> [] \<and> formats tz"
  with assms show "getTimezone formats (Some env) serverTimezone tzGuess logged =
            (tz, logged @ [(Warn, ''timezone'', ''Invalid timezone:'' @ env @ '' in process.env.TZ''),
                           (Debug, ''timezone'', ''Using timezone from settings: '' @ tz)])"
    by (simp add: getTimezone_def fromSettings_def checkTimezone_def shown_def)
qed

theorem invalid_env_falls_back_to_setting_witness:
  "getTimezone three_zones (Some ''Mars/Olympus'') (Some ''Europe/Berlin'')
          (Inr (Some ''UTC'')) [] =
     (''Europe/Berlin'',
      [(Warn, ''timezone'', ''Invalid timezone:Mars/Olympus in process.env.TZ''),
       (Debug, ''timezone'', ''Using timezone from settings: Europe/Berlin'')])"
  using invalid_env_falls_back_to_setting
    [of "''Mars/Olympus''" three_zones "Some ''Europe/Berlin''" "Inr (Some ''UTC'')" "[]"
        "''Europe/Berlin''", THEN conjunct2, THEN conjunct2]
  by (simp add: three_zones_def)

text \<open>
  C9, as stated: the prefix \<open>::ffff:\<close> is stripped from the address returned in all
  cases, also when the address comes from \<open>x-forwarded-for\<close> or \<open>x-real-ip\<close>. It fails:
  with the proxy trusted, an address taken from either header is returned with its
  prefix.
\<close>

theorem forwarded_address_not_stripped_counterexample:
  "getClientIP (JBool True) sock_forwarded = Inr (JStr ''::ffff:203.0.113.7'')
   \<and> getClientIP (JBool True) sock_real_ip = Inr (JStr ''::ffff:203.0.113.7'')"
  by (simp add: getClientIP_def sock_forwarded_def sock_real_ip_def item_def trim_def
      isWhiteSpace_def js_or_def)

text \<open>
  C9, amended: the prefix \<open>::ffff:\<close> is stripped, once and only when it is there, from
  the socket's remote address (an undefined address reads as the empty string), which
  is the address returned when the setting \<open>trustProxy\<close> is off, and when it is on and
  neither header supplies a value: \<open>x-forwarded-for\<close> is not a string or its first
  comma-separated entry is blank, and \<open>x-real-ip\<close> is falsy. With \<open>trustProxy\<close> on, a
  first entry of \<open>x-forwarded-for\<close> that is not blank is returned trimmed and otherwise
  as it is, and failing that a truthy \<open>x-real-ip\<close> is returned as it is.
\<close>

theorem getClientIP_strips_socket_address:
  "((\<not> truthy trustProxy
      \<or> ((\<forall>s. headers socket ''x-forwarded-for'' = JStr s
                \<longrightarrow> trim (takeWhile (\<lambda>c. c \<noteq> CHR '','') s) = [])
          \<and> \<not> truthy (headers socket ''x-real-ip'')))
     \<longrightarrow> (remoteAddress socket = Some (''::ffff:'' @ a)
            \<longrightarrow> getClientIP trustProxy socket = Inr (JStr a))
        \<and> (remoteAddress socket = Some a \<and> \<not> prefix ''::ffff:'' a
            \<longrightarrow> getClientIP trustProxy socket = Inr (JStr a))
        \<and> (remoteAddress socket = None
            \<longrightarrow> getClientIP trustProxy socket = Inr (JStr [])))
   \<and> (truthy trustProxy \<and> headers socket ''x-forwarded-for'' = JStr s
        \<and> trim (takeWhile (\<lambda>c. c \<noteq> CHR '','') s) \<noteq> []
      \<longrightarrow> getClientIP trustProxy socket = Inr (JStr (trim (takeWhile (\<lambda>c. c \<noteq> CHR '','') s))))
   \<and> (truthy trustProxy
        \<and> (\<forall>s. headers socket ''x-forwarded-for'' = JStr s
                \<longrightarrow> trim (takeWhile (\<lambda>c. c \<noteq> CHR '','') s) = [])
        \<and> truthy (headers socket ''x-real-ip'')
      \<longrightarrow> getClientIP trustProxy socket = Inr (headers socket ''x-real-ip''))"
proof -
  have entry: "item (split s '','') 0 = Some (takeWhile (\<lambda>c. c \<noteq> CHR '','') s)" for s
    by (rule split_first_entry)
  show ?thesis
    by (cases "headers socket ''x-forwarded-for''")
       (auto simp: getClientIP_def replace_ffff_def js_or_def Let_def entry)
qed

theorem getClientIP_strips_socket_address_witness:
  "getClientIP (JBool False) sock_forwarded = Inr (JStr ''172.17.0.1'')
   \<and> getClientIP (JBool True) sock_plain = Inr (JStr ''172.17.0.1'')
   \<and> getClientIP (JBool True) sock_blank_entry = Inr (JStr ''192.168.1.10'')
   \<and> getClientIP (JBool True) sock_no_address = Inr (JStr [])"
  using getClientIP_strips_socket_address [of "JBool False" sock_forwarded "''172.17.0.1''"]
    getClientIP_strips_socket_address [of "JBool True" sock_plain "''172.17.0.1''"]
    getClientIP_strips_socket_address [of "JBool True" sock_blank_entry "''192.168.1.10''"]
    getClientIP_strips_socket_address [of "JBool True" sock_no_address]
  by (simp add: sock_forwarded_def sock_plain_def sock_blank_entry_def sock_no_address_def
      trim_def isWhiteSpace_def)


end
